theory Spec2Isabelle
  imports Main
begin

section \<open>Regular expressions of Python's \<open>re\<close> module, as far as the scripts use them\<close>

text \<open>
  The scripts use three patterns, all of them a sequence of anchors, literal
  characters, one greedy \<open>+\<close> over a character class and one capture group:
  \<^verbatim>\<open>^[0-9]+\.[0-9]+\.[0-9]+$\<close> (deploy.py line 36),
  \<^verbatim>\<open>^version = "([^"]+)"\<close> (line 55, with re.MULTILINE) and
  \<^verbatim>\<open>^version = "[^"]+"\<close> (line 76, with re.MULTILINE).
  A pattern is a list of items; the matcher is the backtracking matcher of \<open>re\<close>:
  a greedy repetition takes as many characters as it can and gives them back one
  at a time while the rest of the pattern fails.

  A character is a code point below 256. A position in the subject is the character
  before it (none at the start of the string) and the text after it.
\<close>

datatype cset = Range char char | Except char

fun in_cset :: "cset \<Rightarrow> char \<Rightarrow> bool" where
  "in_cset (Range lo hi) c = (of_char lo \<le> (of_char c :: nat) \<and> (of_char c :: nat) \<le> of_char hi)"
| "in_cset (Except x) c = (c \<noteq> x)"

datatype rx_item =
    Bol             \<comment> \<open>\<open>^\<close>\<close>
  | Eol             \<comment> \<open>\<open>$\<close>\<close>
  | Lit char        \<comment> \<open>a literal character\<close>
  | Plus cset       \<comment> \<open>\<open>[...]+\<close>, greedy\<close>
  | Star cset       \<comment> \<open>\<open>[...]*\<close>, greedy: what is left of a \<open>+\<close> after its first character\<close>
  | GOpen           \<comment> \<open>\<open>(\<close>, the start of group 1\<close>
  | GClose          \<comment> \<open>\<open>)\<close>, the end of group 1\<close>

definition newline :: char where
  "newline = CHR 0x0A"

definition dquote :: char where
  "dquote = CHR 0x22"

text \<open>
  The result of a successful match: group 1 (if the pattern closed it), the last
  character before the end of the match, and the text after the match.

  \<open>^\<close> matches at the start of the string and, with re.MULTILINE, after each newline.
  \<open>$\<close> matches at the end of the string and just before a newline that ends the
  string; with re.MULTILINE, before every newline.
\<close>

type_synonym rx_result = "string option \<times> char option \<times> string"

fun rx_run :: "bool \<Rightarrow> rx_item list \<Rightarrow> char option \<Rightarrow> string \<Rightarrow> string option \<Rightarrow> string option
    \<Rightarrow> rx_result option" where
  "rx_run ml [] prev s mark grp = Some (grp, prev, s)"
| "rx_run ml (Bol # is) prev s mark grp =
     (if prev = None \<or> (ml \<and> prev = Some newline) then rx_run ml is prev s mark grp else None)"
| "rx_run ml (Eol # is) prev s mark grp =
     (if s = [] \<or> (ml \<and> hd s = newline) \<or> (\<not> ml \<and> s = [newline])
      then rx_run ml is prev s mark grp else None)"
| "rx_run ml (Lit c # is) prev [] mark grp = None"
| "rx_run ml (Lit c # is) prev (x # xs) mark grp =
     (if x = c then rx_run ml is (Some x) xs mark grp else None)"
| "rx_run ml (Plus cs # is) prev [] mark grp = None"
| "rx_run ml (Plus cs # is) prev (x # xs) mark grp =
     (if in_cset cs x then rx_run ml (Star cs # is) (Some x) xs mark grp else None)"
| "rx_run ml (Star cs # is) prev [] mark grp = rx_run ml is prev [] mark grp"
| "rx_run ml (Star cs # is) prev (x # xs) mark grp =
     (if in_cset cs x
      then (case rx_run ml (Star cs # is) (Some x) xs mark grp of
              Some r \<Rightarrow> Some r
            | None \<Rightarrow> rx_run ml is prev (x # xs) mark grp)
      else rx_run ml is prev (x # xs) mark grp)"
| "rx_run ml (GOpen # is) prev s mark grp = rx_run ml is prev s (Some s) grp"
| "rx_run ml (GClose # is) prev s mark grp =
     rx_run ml is prev s mark
       (case mark of None \<Rightarrow> grp | Some m \<Rightarrow> Some (take (length m - length s) m))"

text \<open>\<open>re.match\<close>: the pattern is tried at the start of the string only.\<close>

definition re_match :: "bool \<Rightarrow> rx_item list \<Rightarrow> string \<Rightarrow> rx_result option" where
  "re_match ml p s = rx_run ml p None s None None"

text \<open>\<open>re.search\<close>: the first position, from the left, where the pattern matches.\<close>

fun re_search_from :: "bool \<Rightarrow> rx_item list \<Rightarrow> char option \<Rightarrow> string \<Rightarrow> rx_result option" where
  "re_search_from ml p prev [] = rx_run ml p prev [] None None"
| "re_search_from ml p prev (x # xs) =
     (case rx_run ml p prev (x # xs) None None of
        Some r \<Rightarrow> Some r
      | None \<Rightarrow> re_search_from ml p (Some x) xs)"

definition re_search :: "bool \<Rightarrow> rx_item list \<Rightarrow> string \<Rightarrow> rx_result option" where
  "re_search ml p s = re_search_from ml p None s"

section \<open>deploy.py: validate_version\<close>

definition digit :: cset where
  "digit = Range (CHR ''0'') (CHR ''9'')"

definition version_pattern :: "rx_item list" where
  "version_pattern =
     [Bol, Plus digit, Lit (CHR ''.''), Plus digit, Lit (CHR ''.''), Plus digit, Eol]"

definition validate_version :: "string \<Rightarrow> bool" where
  "validate_version version = (re_match False version_pattern version \<noteq> None)"


section \<open>The world the scripts run in\<close>

text \<open>
  deploy.py works on two files of the current directory, pyproject.toml and
  pyproject.toml.backup, and on the directory dist/. A file is its content, or absent;
  dist/ is the list of the names in it, or absent. The log records, in order, what
  the run did to the files and which shell commands it ran; console output is not
  modelled.
\<close>

datatype path = Manifest | Backup

datatype event =
    Copied path path      \<comment> \<open>shutil.copy(src, dst) done\<close>
  | Opened_w path         \<comment> \<open>open(p, 'w') done: the file is created or truncated\<close>
  | Wrote path            \<comment> \<open>f.write(text) done\<close>
  | Removed path          \<comment> \<open>os.remove(p) done\<close>
  | Ran string            \<comment> \<open>subprocess.run(command, shell=True, ...) returned\<close>

record world =
  files :: "path \<Rightarrow> string option"
  dist :: "string list option"
  log :: "event list"

text \<open>
  Python's exceptions, as far as the scripts meet them. SystemExit and
  KeyboardInterrupt derive from BaseException, not from Exception, so
  \<open>except Exception\<close> lets them pass.
\<close>

datatype exc = SystemExit int | KeyboardInterrupt | FileNotFoundError | EOFError | OSError

fun is_Exception :: "exc \<Rightarrow> bool" where
  "is_Exception (SystemExit n) = False"
| "is_Exception KeyboardInterrupt = False"
| "is_Exception FileNotFoundError = True"
| "is_Exception EOFError = True"
| "is_Exception OSError = True"

text \<open>What \<open>input()\<close> meets on standard input: a line, the end of the input, or Ctrl-C.\<close>

datatype reply = Line string | Eof | Interrupt

text \<open>
  Everything the run does not decide itself:
  the command line; whether \<open>import build\<close> and \<open>import twine\<close> succeed; the operator's
  two replies; which shell commands exit with status 0; what dist/ holds after a
  successful \<open>python -m build\<close>; what the file system keeps of a text written to the
  manifest (the identity, unless the write is partial or lost: the verification at
  line 87 is there for that case); and which statements of the script, by line of
  deploy.py, fail with which exception when they run. The lines that can be made to fail
  are the file operations of update_version and of the guarded region of main, and
  the shell commands.
\<close>

record env =
  argv :: "string list"
  deps_ok :: bool
  reply1 :: reply
  reply2 :: reply
  shell_ok :: "string \<Rightarrow> bool"
  built :: "string list option"
  stored :: "string \<Rightarrow> string"
  fault :: "nat \<Rightarrow> exc option"

text \<open>A statement runs in a world and either returns a value or raises; the world changes either way.\<close>

datatype 'a res = Return 'a | Raise exc

type_synonym 'a prog = "world \<Rightarrow> 'a res \<times> world"

definition return :: "'a \<Rightarrow> 'a prog" where
  "return x w = (Return x, w)"

definition raise :: "exc \<Rightarrow> 'a prog" where
  "raise x w = (Raise x, w)"

definition bind :: "'a prog \<Rightarrow> ('a \<Rightarrow> 'b prog) \<Rightarrow> 'b prog" where
  "bind m f w = (case m w of (Return a, w') \<Rightarrow> f a w' | (Raise x, w') \<Rightarrow> (Raise x, w'))"

definition seq :: "'a prog \<Rightarrow> 'b prog \<Rightarrow> 'b prog" where
  "seq m n = bind m (\<lambda>_. n)"

text \<open>\<open>try: m except <handles>: h\<close>. An exception raised by the handler itself is not caught.\<close>

definition try_except :: "'a prog \<Rightarrow> (exc \<Rightarrow> bool) \<Rightarrow> 'a prog \<Rightarrow> 'a prog" where
  "try_except m handles h w =
     (case m w of
        (Return a, w') \<Rightarrow> (Return a, w')
      | (Raise x, w') \<Rightarrow> if handles x then h w' else (Raise x, w'))"

definition sys_exit :: "int \<Rightarrow> 'a prog" where
  "sys_exit n = raise (SystemExit n)"

definition record_event :: "event \<Rightarrow> world \<Rightarrow> world" where
  "record_event ev w = w\<lparr>log := log w @ [ev]\<rparr>"

text \<open>The statement at line \<open>l\<close>: it raises what the environment makes it raise, or runs.\<close>

definition at_line :: "env \<Rightarrow> nat \<Rightarrow> 'a prog \<Rightarrow> 'a prog" where
  "at_line e l m = (case fault e l of None \<Rightarrow> m | Some x \<Rightarrow> raise x)"

subsection \<open>Files\<close>

definition os_path_exists :: "path \<Rightarrow> bool prog" where
  "os_path_exists p w = (Return (files w p \<noteq> None), w)"

definition shutil_copy :: "path \<Rightarrow> path \<Rightarrow> unit prog" where
  "shutil_copy src dst w =
     (case files w src of
        None \<Rightarrow> (Raise FileNotFoundError, w)
      | Some c \<Rightarrow> (Return (), record_event (Copied src dst) (w\<lparr>files := (files w)(dst \<mapsto> c)\<rparr>)))"

definition os_remove :: "path \<Rightarrow> unit prog" where
  "os_remove p w =
     (case files w p of
        None \<Rightarrow> (Raise FileNotFoundError, w)
      | Some c \<Rightarrow> (Return (), record_event (Removed p) (w\<lparr>files := (files w)(p := None)\<rparr>)))"

text \<open>
  \<open>open(p, 'r')\<close> and \<open>f.read()\<close>: text mode with universal newlines, so \<open>\r\n\<close> and a
  lone \<open>\r\<close> are read as \<open>\n\<close>.
\<close>

definition carriage_return :: char where
  "carriage_return = CHR 0x0D"

fun universal_newlines :: "string \<Rightarrow> string" where
  "universal_newlines [] = []"
| "universal_newlines [c] = [if c = carriage_return then newline else c]"
| "universal_newlines (c # d # ds) =
     (if c = carriage_return \<and> d = newline then newline # universal_newlines ds
      else if c = carriage_return then newline # universal_newlines (d # ds)
      else c # universal_newlines (d # ds))"

definition read_text :: "path \<Rightarrow> string prog" where
  "read_text p w =
     (case files w p of
        None \<Rightarrow> (Raise FileNotFoundError, w)
      | Some c \<Rightarrow> (Return (universal_newlines c), w))"

text \<open>
  \<open>open(p, 'w')\<close> creates the file or truncates it. \<open>f.write(text)\<close> then stores the
  text; on the platform of the script (it runs \<open>rm -rf\<close> through a shell) a newline is
  written as it is.
\<close>

definition open_w :: "path \<Rightarrow> unit prog" where
  "open_w p w = (Return (), record_event (Opened_w p) (w\<lparr>files := (files w)(p \<mapsto> [])\<rparr>))"

definition write_text :: "env \<Rightarrow> path \<Rightarrow> string \<Rightarrow> unit prog" where
  "write_text e p text w =
     (Return (), record_event (Wrote p) (w\<lparr>files := (files w)(p \<mapsto> stored e text)\<rparr>))"

section \<open>deploy.py: get_current_version, update_version, restore_backup\<close>

text \<open>
  \<open>re.sub(pattern, repl, string, flags=re.MULTILINE)\<close> with the default count 0:
  every match, from left to right and not overlapping, is replaced. The search
  resumes where a match ended. A match of the script's pattern is never empty;
  for a pattern that matches the empty string, the replacement is inserted and the
  scan moves on by one character.

  Python expands backslash escapes in \<open>repl\<close>. The model takes \<open>repl\<close> as it is, so it
  covers the replacement strings without a backslash; a version that
  validate_version accepts has none.
\<close>

fun re_sub_from :: "bool \<Rightarrow> rx_item list \<Rightarrow> string \<Rightarrow> char option \<Rightarrow> string \<Rightarrow> string" where
  "re_sub_from ml p repl prev [] =
     (case rx_run ml p prev [] None None of Some r \<Rightarrow> repl | None \<Rightarrow> [])"
| "re_sub_from ml p repl prev (x # xs) =
     (case rx_run ml p prev (x # xs) None None of
        Some (g, prev', s') \<Rightarrow>
          if length s' < length (x # xs) then repl @ re_sub_from ml p repl prev' s'
          else repl @ x # re_sub_from ml p repl (Some x) xs
      | None \<Rightarrow> x # re_sub_from ml p repl (Some x) xs)"

definition re_sub :: "bool \<Rightarrow> rx_item list \<Rightarrow> string \<Rightarrow> string \<Rightarrow> string" where
  "re_sub ml p repl s = re_sub_from ml p repl None s"

definition version_key :: string where
  "version_key = ''version = '' @ [dquote]"

text \<open>Line 55: \<^verbatim>\<open>^version = "([^"]+)"\<close>. Line 76: \<^verbatim>\<open>^version = "[^"]+"\<close>.\<close>

definition current_version_pattern :: "rx_item list" where
  "current_version_pattern =
     Bol # map Lit version_key @ [GOpen, Plus (Except dquote), GClose, Lit dquote]"

definition update_pattern :: "rx_item list" where
  "update_pattern = Bol # map Lit version_key @ [Plus (Except dquote), Lit dquote]"

definition group1 :: "rx_result option \<Rightarrow> string option" where
  "group1 r = (case r of None \<Rightarrow> None | Some (g, prev, s) \<Rightarrow> g)"

definition get_current_version :: "string option prog" where
  "get_current_version =
     try_except
       (bind (read_text Manifest) (\<lambda>content.
          return (group1 (re_search True current_version_pattern content))))
       (\<lambda>x. x = FileNotFoundError)
       (return None)"

definition version_line :: "string \<Rightarrow> string" where
  "version_line new_version = version_key @ new_version @ [dquote]"

definition update_version :: "env \<Rightarrow> string \<Rightarrow> bool prog" where
  "update_version e new_version =
     try_except
       (seq (at_line e 67 (shutil_copy Manifest Backup))
       (bind (at_line e 71 (read_text Manifest)) (\<lambda>content.
        let updated_content = re_sub True update_pattern (version_line new_version) content in
        seq (at_line e 83 (open_w Manifest))
       (seq (at_line e 84 (write_text e Manifest updated_content))
       (bind get_current_version (\<lambda>v.
        if v = Some new_version then return True
        else seq (at_line e 91 (shutil_copy Backup Manifest)) (return False)))))))
       is_Exception
       (return False)"

definition restore_backup :: "unit prog" where
  "restore_backup =
     bind (os_path_exists Backup) (\<lambda>ex.
       if ex then seq (shutil_copy Backup Manifest) (os_remove Backup)
       else return ())"

section \<open>deploy.py: run_command and main\<close>

definition clean_command :: string where
  "clean_command = ''rm -rf dist/ *.egg-info/ build/''"

definition build_command :: string where
  "build_command = ''python -m build''"

definition upload_command :: string where
  "upload_command = ''python -m twine upload dist/*''"

text \<open>
  What a command that exits with status 0 leaves behind: the clean-up removes dist/,
  the build fills it. No command touches the manifest or its backup.
\<close>

definition shell_effect :: "env \<Rightarrow> string \<Rightarrow> world \<Rightarrow> world" where
  "shell_effect e command w =
     (if command = clean_command then w\<lparr>dist := None\<rparr>
      else if command = build_command then w\<lparr>dist := built e\<rparr>
      else w)"

text \<open>
  run_command returns the pair (success, output); no caller reads the output.
  A non-zero exit status raises CalledProcessError, which run_command catches.
\<close>

definition run_command :: "env \<Rightarrow> nat \<Rightarrow> string \<Rightarrow> bool prog" where
  "run_command e l command =
     at_line e l (\<lambda>w.
       if shell_ok e command then (Return True, record_event (Ran command) (shell_effect e command w))
       else (Return False, record_event (Ran command) w))"

definition input_line :: "reply \<Rightarrow> string prog" where
  "input_line r = (case r of Line s \<Rightarrow> return s | Eof \<Rightarrow> raise EOFError | Interrupt \<Rightarrow> raise KeyboardInterrupt)"

text \<open>\<open>str.strip()\<close> and \<open>str.lower()\<close> on code points below 256.\<close>

definition py_isspace :: "char \<Rightarrow> bool" where
  "py_isspace c = ((of_char c :: nat) \<in> {9, 10, 11, 12, 13, 28, 29, 30, 31, 32, 133, 160})"

definition py_strip :: "string \<Rightarrow> string" where
  "py_strip s = rev (dropWhile py_isspace (rev (dropWhile py_isspace s)))"

definition lower_char :: "char \<Rightarrow> char" where
  "lower_char c =
     (let n = (of_char c :: nat)
      in if (65 \<le> n \<and> n \<le> 90) \<or> (192 \<le> n \<and> n \<le> 222 \<and> n \<noteq> 215) then char_of (n + 32) else c)"

definition py_lower :: "string \<Rightarrow> string" where
  "py_lower s = map lower_char s"

text \<open>Lines 154 and 204: \<open>response = input(...).strip().lower()\<close>.\<close>

definition response :: "string \<Rightarrow> string" where
  "response s = py_lower (py_strip s)"

definition dist_listing :: "string list option prog" where
  "dist_listing w = (Return (dist w), w)"

text \<open>The body of the \<open>try\<close> of main, lines 160 to 237.\<close>

definition deploy :: "env \<Rightarrow> string \<Rightarrow> unit prog" where
  "deploy e version =
     bind (update_version e version) (\<lambda>updated.
     if \<not> updated then sys_exit 1 else
     bind (run_command e 168 clean_command) (\<lambda>success.
     if \<not> success then seq restore_backup (sys_exit 1) else
     bind (run_command e 177 build_command) (\<lambda>success.
     if \<not> success then seq restore_backup (sys_exit 1) else
     bind (at_line e 187 dist_listing) (\<lambda>d.
     if d = None \<or> d = Some [] then seq restore_backup (sys_exit 1) else
     bind (input_line (reply2 e)) (\<lambda>line.
     if response line \<noteq> ''y'' then seq (at_line e 208 (os_remove Backup)) (sys_exit 0) else
     bind (run_command e 212 upload_command) (\<lambda>success.
     if success then at_line e 219 (os_remove Backup)
     else seq restore_backup (sys_exit 1)))))))"

text \<open>
  main, lines 118 to 246. The two handlers of its \<open>try\<close>, for KeyboardInterrupt and for
  Exception, do the same but for the message they print: restore_backup, then
  \<open>sys.exit(1)\<close>.
\<close>

definition main :: "env \<Rightarrow> unit prog" where
  "main e =
     (if length (argv e) \<noteq> 2 then sys_exit 1 else
      let version = argv e ! 1 in
      if \<not> validate_version version then sys_exit 1 else
      bind (os_path_exists Manifest) (\<lambda>ex.
      if \<not> ex then sys_exit 1 else
      if \<not> deps_ok e then sys_exit 1 else
      bind get_current_version (\<lambda>current_version.
      if current_version = None \<or> current_version = Some [] then sys_exit 1 else
      bind (input_line (reply1 e)) (\<lambda>line.
      if response line \<noteq> ''y'' then sys_exit 0 else
      try_except (deploy e version)
        (\<lambda>x. x = KeyboardInterrupt \<or> is_Exception x)
        (seq restore_backup (sys_exit 1))))))"

text \<open>
  How the process ends: with the code of \<open>sys.exit\<close>, with code 0 when main returns,
  or by an exception nothing caught (the interpreter's own ending, with a traceback).
\<close>

datatype outcome = Exited int | Uncaught exc

definition run_script :: "env \<Rightarrow> world \<Rightarrow> outcome \<times> world" where
  "run_script e w =
     (case main e w of
        (Return u, w') \<Rightarrow> (Exited 0, w')
      | (Raise (SystemExit n), w') \<Rightarrow> (Exited n, w')
      | (Raise x, w') \<Rightarrow> (Uncaught x, w'))"

section \<open>run_tests.py\<close>

text \<open>
  main returns 1 when \<open>import pytest\<close> fails, and otherwise 0 or 1 by the return code of
  the pytest subprocess; the script exits with what main returns.
\<close>

definition run_tests_main :: "bool \<Rightarrow> int \<Rightarrow> int" where
  "run_tests_main pytest_available returncode =
     (if \<not> pytest_available then 1
      else if returncode = 0 then 0
      else 1)"


section \<open>Notions the properties are stated with\<close>

text \<open>
  The version that get_current_version finds in a manifest of content \<open>c\<close>:
  lines 53 to 57, on the text as read.
\<close>

definition reread :: "string \<Rightarrow> string option" where
  "reread c = group1 (re_search True current_version_pattern (universal_newlines c))"

text \<open>
  A match of the two version patterns at a position, described without the matcher:
  the position is at the start of a line, the text goes on with \<^verbatim>\<open>version = "\<close>, then
  with one or more characters other than a double quote, then with a double quote.
  The result is the text between the quotes and the text after the match.
\<close>

definition version_at :: "char option \<Rightarrow> string \<Rightarrow> (string \<times> string) option" where
  "version_at prev s =
     (if (prev = None \<or> prev = Some newline) \<and> take (length version_key) s = version_key
      then let r = drop (length version_key) s
           in if takeWhile (\<lambda>c. c \<noteq> dquote) r \<noteq> [] \<and> dropWhile (\<lambda>c. c \<noteq> dquote) r \<noteq> []
              then Some (takeWhile (\<lambda>c. c \<noteq> dquote) r, tl (dropWhile (\<lambda>c. c \<noteq> dquote) r))
              else None
      else None)"

text \<open>
  A text laid out as pieces: each piece is some text \<open>g\<close> followed by the version line
  of \<open>v\<close>; after the last piece comes the rest \<open>t\<close>.
\<close>

fun layout :: "(string \<times> string) list \<Rightarrow> string \<Rightarrow> string" where
  "layout [] t = t"
| "layout ((g, v) # ps) t = g @ version_line v @ layout ps t"

text \<open>A group of one or more decimal digits.\<close>

definition digits :: "string \<Rightarrow> bool" where
  "digits a = (a \<noteq> [] \<and> list_all (in_cset digit) a)"

definition backslash :: char where
  "backslash = CHR 0x5C"

subsection \<open>Sample runs\<close>

definition sample_manifest :: string where
  "sample_manifest =
     version_line ''1.2.3'' @ [newline] @ ''[x]'' @ [newline] @ version_line ''0.1'' @ [newline]"

definition sample_world :: world where
  "sample_world = \<lparr>files = [Manifest \<mapsto> sample_manifest], dist = None, log = []\<rparr>"

text \<open>
  An operator who runs \<open>deploy.py 1.2.4\<close> where every tool is installed, every command
  succeeds, the build leaves one file and nothing fails.
\<close>

definition operator_env :: "reply \<Rightarrow> reply \<Rightarrow> env" where
  "operator_env r1 r2 =
     \<lparr>argv = [''deploy.py'', ''1.2.4''], deps_ok = True, reply1 = r1, reply2 = r2,
      shell_ok = (\<lambda>c. True), built = Some [''p.whl''], stored = id, fault = (\<lambda>l. None)\<rparr>"

text \<open>The same, on a disk that takes no more data: \<open>f.write\<close> at line 84 raises OSError.\<close>

definition full_disk_env :: env where
  "full_disk_env = (operator_env (Line ''y'') (Line ''y''))\<lparr>fault := (\<lambda>l. if l = 84 then Some OSError else None)\<rparr>"

text \<open>The same, on a file system that loses the text written at line 84.\<close>

definition lost_write_env :: env where
  "lost_write_env = (operator_env (Line ''y'') (Line ''y''))\<lparr>stored := (\<lambda>text. [])\<rparr>"

text \<open>The same, with a build that succeeds and leaves dist/ empty.\<close>

definition empty_build_env :: env where
  "empty_build_env = (operator_env (Line ''y'') (Line ''y''))\<lparr>built := Some []\<rparr>"

text \<open>A manifest with Windows line ends.\<close>

definition crlf_manifest :: string where
  "crlf_manifest = version_line ''1.2.3'' @ [carriage_return, newline]"

definition crlf_world :: world where
  "crlf_world = \<lparr>files = [Manifest \<mapsto> crlf_manifest], dist = None, log = []\<rparr>"

text \<open>The two sample manifests after the update to 1.2.4.\<close>

definition sample_updated_manifest :: string where
  "sample_updated_manifest =
     version_line ''1.2.4'' @ [newline] @ ''[x]'' @ [newline] @ version_line ''1.2.4'' @ [newline]"

definition crlf_updated_manifest :: string where
  "crlf_updated_manifest = version_line ''1.2.4'' @ [newline]"

section \<open>The matcher on the patterns of the script\<close>

lemmas prog_defs = return_def raise_def bind_def seq_def try_except_def sys_exit_def at_line_def
  record_event_def os_path_exists_def shutil_copy_def os_remove_def read_text_def open_w_def
  write_text_def input_line_def dist_listing_def

lemmas pattern_defs = version_pattern_def digit_def update_pattern_def current_version_pattern_def
  version_key_def version_line_def dquote_def newline_def carriage_return_def

lemmas sample_defs = sample_manifest_def sample_world_def operator_env_def full_disk_env_def
  lost_write_env_def empty_build_env_def

lemma in_cset_Except: "in_cset (Except c) = (\<lambda>x. x \<noteq> c)"
  by (rule ext) simp

lemma rx_run_Lits:
  "k \<noteq> [] \<Longrightarrow> rx_run ml (map Lit k @ is) prev s mark grp =
     (if take (length k) s = k then rx_run ml is (Some (last k)) (drop (length k) s) mark grp
      else None)"
proof (induction k arbitrary: prev s rule: list_nonempty_induct)
  case (single c)
  show ?case by (cases s) auto
next
  case (cons c k)
  show ?case by (cases s) (auto simp: cons.IH cons.hyps)
qed

lemma rx_run_Star_greedy:
  assumes "\<And>x xs p. in_cset cs x \<Longrightarrow> rx_run ml is p (x # xs) mark grp = None"
  shows "rx_run ml (Star cs # is) prev s mark grp =
     rx_run ml is
       (if takeWhile (in_cset cs) s = [] then prev else Some (last (takeWhile (in_cset cs) s)))
       (dropWhile (in_cset cs) s) mark grp"
proof (induction s arbitrary: prev)
  case Nil
  show ?case by simp
next
  case (Cons x xs)
  show ?case
  proof (cases "in_cset cs x")
    case True
    have "rx_run ml (Star cs # is) prev (x # xs) mark grp =
        rx_run ml (Star cs # is) (Some x) xs mark grp"
      using True assms [OF True] by (simp split: option.splits)
    then show ?thesis
      using True Cons.IH [of "Some x"] by simp
  next
    case False
    then show ?thesis by simp
  qed
qed

lemma take_length_dropWhile:
  "take (Suc (length ys) - length (dropWhile P ys)) (y # ys) = y # takeWhile P ys"
proof -
  have "take (length ys - length (dropWhile P ys)) ys = takeWhile P ys"
    by (induction ys) (auto simp: Suc_diff_le length_dropWhile_le)
  then show ?thesis
    by (simp add: Suc_diff_le length_dropWhile_le)
qed

lemma hd_dropWhile_dquote:
  "dropWhile (\<lambda>c. c \<noteq> dquote) ys = z # zs \<Longrightarrow> z = dquote"
  using hd_dropWhile [of "\<lambda>c. c \<noteq> dquote" ys] by simp

lemma rx_run_quoted:
  "rx_run ml [Plus (Except dquote), Lit dquote] p r mark grp =
     (if takeWhile (\<lambda>c. c \<noteq> dquote) r \<noteq> [] \<and> dropWhile (\<lambda>c. c \<noteq> dquote) r \<noteq> []
      then Some (grp, Some dquote, tl (dropWhile (\<lambda>c. c \<noteq> dquote) r)) else None)"
proof (cases r)
  case Nil
  then show ?thesis by simp
next
  case (Cons y ys)
  show ?thesis
  proof (cases "y = dquote")
    case True
    with Cons show ?thesis by simp
  next
    case False
    have star: "rx_run ml (Star (Except dquote) # [Lit dquote]) (Some y) ys mark grp =
        rx_run ml [Lit dquote]
          (if takeWhile (in_cset (Except dquote)) ys = [] then Some y
           else Some (last (takeWhile (in_cset (Except dquote)) ys)))
          (dropWhile (in_cset (Except dquote)) ys) mark grp"
      by (rule rx_run_Star_greedy) simp
    show ?thesis
    proof (cases "dropWhile (\<lambda>c. c \<noteq> dquote) ys")
      case Nil
      with Cons False show ?thesis
        by (simp add: star in_cset_Except del: dropWhile_eq_Nil_conv)
    next
      case (Cons z zs)
      with \<open>r = y # ys\<close> False hd_dropWhile_dquote [OF Cons] show ?thesis
        by (simp add: star in_cset_Except del: dropWhile_eq_Nil_conv)
    qed
  qed
qed

lemma rx_run_grouped:
  "rx_run ml [Plus (Except dquote), GClose, Lit dquote] p r (Some r) grp =
     (if takeWhile (\<lambda>c. c \<noteq> dquote) r \<noteq> [] \<and> dropWhile (\<lambda>c. c \<noteq> dquote) r \<noteq> []
      then Some (Some (takeWhile (\<lambda>c. c \<noteq> dquote) r), Some dquote,
                 tl (dropWhile (\<lambda>c. c \<noteq> dquote) r))
      else None)"
proof (cases r)
  case Nil
  then show ?thesis by simp
next
  case (Cons y ys)
  show ?thesis
  proof (cases "y = dquote")
    case True
    with Cons show ?thesis by simp
  next
    case False
    have star: "rx_run ml (Star (Except dquote) # [GClose, Lit dquote]) (Some y) ys (Some (y # ys)) grp =
        rx_run ml [GClose, Lit dquote]
          (if takeWhile (in_cset (Except dquote)) ys = [] then Some y
           else Some (last (takeWhile (in_cset (Except dquote)) ys)))
          (dropWhile (in_cset (Except dquote)) ys) (Some (y # ys)) grp"
      by (rule rx_run_Star_greedy) simp
    show ?thesis
    proof (cases "dropWhile (\<lambda>c. c \<noteq> dquote) ys")
      case Nil
      with Cons False show ?thesis
        by (simp add: star in_cset_Except del: dropWhile_eq_Nil_conv)
    next
      case (Cons z zs)
      have "take (Suc (length ys) - length (z # zs)) (y # ys) = y # takeWhile (\<lambda>c. c \<noteq> dquote) ys"
        using take_length_dropWhile [of ys "\<lambda>c. c \<noteq> dquote" y] Cons by simp
      with \<open>r = y # ys\<close> False Cons hd_dropWhile_dquote [OF Cons] show ?thesis
        by (simp add: star in_cset_Except del: dropWhile_eq_Nil_conv)
    qed
  qed
qed

lemma version_key_facts: "version_key \<noteq> []" "last version_key = dquote" "length version_key = 11"
  "newline \<notin> set version_key"
  by (simp_all add: version_key_def newline_def dquote_def)

lemma rx_run_update:
  "rx_run True update_pattern prev s None None =
     map_option (\<lambda>(v, t). (None, Some dquote, t)) (version_at prev s)"
  unfolding update_pattern_def version_at_def
  by (simp add: rx_run_Lits [OF version_key_facts(1)] version_key_facts(2) rx_run_quoted Let_def
        del: dropWhile_eq_Nil_conv)

lemma rx_run_current:
  "rx_run True current_version_pattern prev s None None =
     map_option (\<lambda>(v, t). (Some v, Some dquote, t)) (version_at prev s)"
  unfolding current_version_pattern_def version_at_def
  by (simp add: rx_run_Lits [OF version_key_facts(1)] version_key_facts(2) rx_run_grouped Let_def
        del: dropWhile_eq_Nil_conv)

lemma version_at_Nil: "version_at prev [] = None"
  by (simp add: version_at_def version_key_def)

lemma version_atD:
  assumes "version_at prev s = Some (v, t)"
  shows "s = version_line v @ t" and "v \<noteq> []" and "dquote \<notin> set v"
    and "prev = None \<or> prev = Some newline"
proof -
  let ?r = "drop (length version_key) s"
  from assms have key: "take (length version_key) s = version_key"
    and v: "v = takeWhile (\<lambda>c. c \<noteq> dquote) ?r"
    and t: "t = tl (dropWhile (\<lambda>c. c \<noteq> dquote) ?r)"
    and ne: "takeWhile (\<lambda>c. c \<noteq> dquote) ?r \<noteq> []" "dropWhile (\<lambda>c. c \<noteq> dquote) ?r \<noteq> []"
    and bol: "prev = None \<or> prev = Some newline"
    by (auto simp: version_at_def Let_def simp del: dropWhile_eq_Nil_conv split: if_splits)
  from ne(2) obtain z zs where d: "dropWhile (\<lambda>c. c \<noteq> dquote) ?r = z # zs"
    by (cases "dropWhile (\<lambda>c. c \<noteq> dquote) ?r") auto
  with hd_dropWhile_dquote [OF d] have d': "dropWhile (\<lambda>c. c \<noteq> dquote) ?r = dquote # t"
    using t by simp
  have "s = take (length version_key) s @ ?r" by simp
  also have "?r = takeWhile (\<lambda>c. c \<noteq> dquote) ?r @ dropWhile (\<lambda>c. c \<noteq> dquote) ?r" by simp
  finally show "s = version_line v @ t"
    using key v d' by (simp add: version_line_def)
  show "v \<noteq> []" using v ne(1) by simp
  show "dquote \<notin> set v" using v set_takeWhileD [of dquote "\<lambda>c. c \<noteq> dquote" ?r] by auto
  show "prev = None \<or> prev = Some newline" by (rule bol)
qed

lemma version_at_shorter: "version_at prev s = Some (v, t) \<Longrightarrow> length t < length s"
  using version_atD(1) [of prev s v t] version_key_facts(3)
  by (simp add: version_line_def)

lemma re_sub_from_update:
  "re_sub_from True update_pattern repl prev s =
     (case version_at prev s of
        Some (v, t) \<Rightarrow> repl @ re_sub_from True update_pattern repl (Some dquote) t
      | None \<Rightarrow> (case s of [] \<Rightarrow> [] | x # xs \<Rightarrow> x # re_sub_from True update_pattern repl (Some x) xs))"
proof (cases s)
  case Nil
  then show ?thesis by (simp add: rx_run_update version_at_Nil)
next
  case (Cons x xs)
  show ?thesis
  proof (cases "version_at prev s")
    case None
    then show ?thesis using Cons by (simp add: rx_run_update)
  next
    case (Some vt)
    then obtain v t where at: "version_at prev s = Some (v, t)" by (cases vt) auto
    from version_at_shorter [OF at] at show ?thesis using Cons by (simp add: rx_run_update)
  qed
qed

lemma re_search_from_current:
  "re_search_from True current_version_pattern prev s =
     (case version_at prev s of
        Some (v, t) \<Rightarrow> Some (Some v, Some dquote, t)
      | None \<Rightarrow> (case s of [] \<Rightarrow> None
                 | x # xs \<Rightarrow> re_search_from True current_version_pattern (Some x) xs))"
proof (cases s)
  case Nil
  then show ?thesis by (simp add: rx_run_current version_at_Nil)
next
  case (Cons x xs)
  then show ?thesis
    by (cases "version_at prev s") (auto simp: rx_run_current)
qed

lemma re_search_from_group:
  "re_search_from True current_version_pattern prev s = Some (g, p, t) \<Longrightarrow> \<exists>v. g = Some v \<and> v \<noteq> []"
proof (induction s arbitrary: prev)
  case Nil
  then show ?case by (simp add: rx_run_current version_at_Nil)
next
  case (Cons x xs)
  show ?case
  proof (cases "version_at prev (x # xs)")
    case None
    with Cons.prems have "re_search_from True current_version_pattern (Some x) xs = Some (g, p, t)"
      by (simp add: rx_run_current)
    then show ?thesis by (rule Cons.IH)
  next
    case (Some vt)
    then obtain v t' where at: "version_at prev (x # xs) = Some (v, t')" by (cases vt) auto
    with Cons.prems have "g = Some v" by (simp add: rx_run_current)
    with version_atD(2) [OF at] show ?thesis by simp
  qed
qed

lemma reread_nonempty: "reread c = Some cur \<Longrightarrow> cur \<noteq> []"
proof -
  assume r: "reread c = Some cur"
  then obtain g p t where
    "re_search_from True current_version_pattern None (universal_newlines c) = Some (g, p, t)"
    and "g = Some cur"
    by (auto simp: reread_def group1_def re_search_def split: option.splits)
  with re_search_from_group show ?thesis by fastforce
qed

text \<open>
  What \<open>re.sub\<close> does to a text: the text is a layout of pieces and a rest, and
  the result is the same layout with every version replaced. When the layout has no
  piece, the search of get_current_version finds nothing in the text.
\<close>

lemma re_sub_layout:
  "\<exists>ps t. s = layout ps t
     \<and> re_sub_from True update_pattern (version_line new) prev s = layout (map (\<lambda>(g, v). (g, new)) ps) t
     \<and> (\<forall>(g, v) \<in> set ps. v \<noteq> [] \<and> dquote \<notin> set v)
     \<and> (ps = [] \<longrightarrow> re_search_from True current_version_pattern prev s = None)"
proof (induction s arbitrary: prev rule: length_induct)
  case (1 s)
  show ?case
  proof (cases "version_at prev s")
    case (Some vt)
    then obtain v t where at: "version_at prev s = Some (v, t)" by (cases vt) auto
    note s = version_atD(1) [OF at]
    have "length t < length s" by (rule version_at_shorter [OF at])
    with 1 obtain ps t' where ih: "t = layout ps t'"
      "re_sub_from True update_pattern (version_line new) (Some dquote) t = layout (map (\<lambda>(g, v). (g, new)) ps) t'"
      "\<forall>(g, v) \<in> set ps. v \<noteq> [] \<and> dquote \<notin> set v"
      by blast
    have sub: "re_sub_from True update_pattern (version_line new) prev s =
        version_line new @ re_sub_from True update_pattern (version_line new) (Some dquote) t"
      using at by (subst re_sub_from_update) simp
    have "s = layout (([], v) # ps) t'" using s ih(1) by simp
    moreover have "re_sub_from True update_pattern (version_line new) prev s =
        layout (map (\<lambda>(g, v). (g, new)) (([], v) # ps)) t'"
      using sub ih(2) by simp
    moreover have "\<forall>(g, v) \<in> set (([], v) # ps). v \<noteq> [] \<and> dquote \<notin> set v"
      using ih(3) version_atD(2,3) [OF at] by simp
    ultimately show ?thesis
      by (intro exI [of _ "([], v) # ps"] exI [of _ "t'"]) simp
  next
    case None
    show ?thesis
    proof (cases s)
      case Nil
      have "s = layout [] []" using Nil by simp
      moreover have "re_sub_from True update_pattern (version_line new) prev s = layout (map (\<lambda>(g, v). (g, new)) []) []"
        using Nil by (simp add: rx_run_update version_at_Nil)
      moreover have "re_search_from True current_version_pattern prev s = None"
        using Nil by (simp add: rx_run_current version_at_Nil)
      ultimately show ?thesis
        by (intro exI [of _ "[]"] exI [of _ "[]::string"]) simp
    next
      case (Cons x xs)
      then have "length xs < length s" by simp
      with 1 obtain ps t' where ih: "xs = layout ps t'"
        "re_sub_from True update_pattern (version_line new) (Some x) xs = layout (map (\<lambda>(g, v). (g, new)) ps) t'"
        "\<forall>(g, v) \<in> set ps. v \<noteq> [] \<and> dquote \<notin> set v"
        "ps = [] \<longrightarrow> re_search_from True current_version_pattern (Some x) xs = None"
        by blast
      have sub: "re_sub_from True update_pattern (version_line new) prev s =
          x # re_sub_from True update_pattern (version_line new) (Some x) xs"
        using None Cons by (subst re_sub_from_update) simp
      have search: "re_search_from True current_version_pattern prev s =
          re_search_from True current_version_pattern (Some x) xs"
        using None Cons by (subst re_search_from_current) simp
      show ?thesis
      proof (cases ps)
        case Nil
        have "s = layout [] (x # t')" using Cons ih(1) Nil by simp
        moreover have "re_sub_from True update_pattern (version_line new) prev s = layout (map (\<lambda>(g, v). (g, new)) []) (x # t')"
          using sub ih(2) Nil by simp
        moreover have "re_search_from True current_version_pattern prev s = None"
          using search ih(4) Nil by simp
        ultimately show ?thesis
          by (intro exI [of _ "[]"] exI [of _ "x # t'"]) simp
      next
        case (Cons gv ps')
        obtain g v where gv: "gv = (g, v)" by (cases gv)
        have "s = layout ((x # g, v) # ps') t'"
          using \<open>s = x # xs\<close> ih(1) Cons gv by simp
        moreover have "re_sub_from True update_pattern (version_line new) prev s =
            layout (map (\<lambda>(g, v). (g, new)) ((x # g, v) # ps')) t'"
          using sub ih(2) Cons gv by simp
        moreover have "\<forall>(g, v) \<in> set ((x # g, v) # ps'). v \<noteq> [] \<and> dquote \<notin> set v"
          using ih(3) Cons gv by simp
        ultimately show ?thesis
          by (intro exI [of _ "(x # g, v) # ps'"] exI [of _ "t'"]) simp
      qed
    qed
  qed
qed

section \<open>What validate_version accepts\<close>

lemma not_digit: "\<not> in_cset digit (CHR ''.'')" "\<not> in_cset digit newline"
  by (simp_all add: digit_def newline_def)

lemma rx_run_digits_dot:
  "rx_run ml (Plus digit # Lit (CHR ''.'') # is) p s mark grp =
     (if takeWhile (in_cset digit) s \<noteq> [] \<and> (\<exists>t. dropWhile (in_cset digit) s = CHR ''.'' # t)
      then rx_run ml is (Some (CHR ''.'')) (tl (dropWhile (in_cset digit) s)) mark grp
      else None)"
proof (cases s)
  case Nil
  then show ?thesis by simp
next
  case (Cons y ys)
  show ?thesis
  proof (cases "in_cset digit y")
    case False
    with Cons show ?thesis by simp
  next
    case True
    have star: "rx_run ml (Star digit # Lit (CHR ''.'') # is) (Some y) ys mark grp =
        rx_run ml (Lit (CHR ''.'') # is)
          (if takeWhile (in_cset digit) ys = [] then Some y
           else Some (last (takeWhile (in_cset digit) ys)))
          (dropWhile (in_cset digit) ys) mark grp"
      by (rule rx_run_Star_greedy) (auto simp: not_digit)
    show ?thesis
      using Cons True
      by (cases "dropWhile (in_cset digit) ys") (auto simp: star simp del: dropWhile_eq_Nil_conv)
  qed
qed

lemma rx_run_digits_eol:
  "(rx_run False [Plus digit, Eol] p s mark grp = None) =
     (\<not> (takeWhile (in_cset digit) s \<noteq> []
      \<and> (dropWhile (in_cset digit) s = [] \<or> dropWhile (in_cset digit) s = [newline])))"
proof (cases s)
  case Nil
  then show ?thesis by simp
next
  case (Cons y ys)
  show ?thesis
  proof (cases "in_cset digit y")
    case False
    with Cons show ?thesis by simp
  next
    case True
    have star: "rx_run False (Star digit # [Eol]) (Some y) ys mark grp =
        rx_run False [Eol]
          (if takeWhile (in_cset digit) ys = [] then Some y
           else Some (last (takeWhile (in_cset digit) ys)))
          (dropWhile (in_cset digit) ys) mark grp"
      by (rule rx_run_Star_greedy) (auto simp: not_digit)
    show ?thesis
      using Cons True by (simp add: star del: dropWhile_eq_Nil_conv)
  qed
qed

lemma digits_span:
  assumes "digits a" and "\<not> in_cset digit y"
  shows "takeWhile (in_cset digit) (a @ y # r) = a" and "dropWhile (in_cset digit) (a @ y # r) = y # r"
  using assms by (simp_all add: digits_def list_all_iff)

lemma digits_takeWhile: "takeWhile (in_cset digit) s \<noteq> [] \<Longrightarrow> digits (takeWhile (in_cset digit) s)"
  by (auto simp: digits_def list_all_iff dest: set_takeWhileD)

text \<open>
  validate_version accepts the strings \<open>a.b.c\<close> with three groups of digits, and the
  same strings followed by one newline, and no other.
\<close>

lemma validate_version_iff:
  "validate_version s =
     (\<exists>a b c. digits a \<and> digits b \<and> digits c
        \<and> (s = a @ ''.'' @ b @ ''.'' @ c \<or> s = a @ ''.'' @ b @ ''.'' @ c @ [newline]))"
proof
  assume "validate_version s"
  then have a: "takeWhile (in_cset digit) s \<noteq> []"
    and s1: "\<exists>t. dropWhile (in_cset digit) s = CHR ''.'' # t"
    and rest: "rx_run False [Plus digit, Lit (CHR ''.''), Plus digit, Eol] (Some (CHR ''.''))
        (tl (dropWhile (in_cset digit) s)) None None \<noteq> None"
    by (auto simp: validate_version_def re_match_def version_pattern_def rx_run_digits_dot
          simp del: dropWhile_eq_Nil_conv split: if_splits)
  from s1 obtain t1 where t1: "dropWhile (in_cset digit) s = CHR ''.'' # t1" by blast
  from rest t1 have b: "takeWhile (in_cset digit) t1 \<noteq> []"
    and s2: "\<exists>t. dropWhile (in_cset digit) t1 = CHR ''.'' # t"
    and last: "rx_run False [Plus digit, Eol] (Some (CHR ''.''))
        (tl (dropWhile (in_cset digit) t1)) None None \<noteq> None"
    by (auto simp: rx_run_digits_dot simp del: dropWhile_eq_Nil_conv split: if_splits)
  from s2 obtain t2 where t2: "dropWhile (in_cset digit) t1 = CHR ''.'' # t2" by blast
  from last t2 have c: "takeWhile (in_cset digit) t2 \<noteq> []"
    and e: "dropWhile (in_cset digit) t2 = [] \<or> dropWhile (in_cset digit) t2 = [newline]"
    by (simp_all add: rx_run_digits_eol del: dropWhile_eq_Nil_conv)
  have "s = takeWhile (in_cset digit) s @ dropWhile (in_cset digit) s" by simp
  also have "dropWhile (in_cset digit) s = CHR ''.'' # takeWhile (in_cset digit) t1 @ dropWhile (in_cset digit) t1"
    using t1 by simp
  also have "dropWhile (in_cset digit) t1 = CHR ''.'' # takeWhile (in_cset digit) t2 @ dropWhile (in_cset digit) t2"
    using t2 by simp
  finally have s: "s = takeWhile (in_cset digit) s @ ''.'' @ takeWhile (in_cset digit) t1 @ ''.''
      @ takeWhile (in_cset digit) t2 @ dropWhile (in_cset digit) t2"
    by simp
  from e show "\<exists>a b c. digits a \<and> digits b \<and> digits c
        \<and> (s = a @ ''.'' @ b @ ''.'' @ c \<or> s = a @ ''.'' @ b @ ''.'' @ c @ [newline])"
  proof
    assume "dropWhile (in_cset digit) t2 = []"
    with s have "s = takeWhile (in_cset digit) s @ ''.'' @ takeWhile (in_cset digit) t1 @ ''.''
      @ takeWhile (in_cset digit) t2"
      by (simp del: dropWhile_eq_Nil_conv)
    with digits_takeWhile [OF a] digits_takeWhile [OF b] digits_takeWhile [OF c] show ?thesis
      by blast
  next
    assume "dropWhile (in_cset digit) t2 = [newline]"
    with s have "s = takeWhile (in_cset digit) s @ ''.'' @ takeWhile (in_cset digit) t1 @ ''.''
      @ takeWhile (in_cset digit) t2 @ [newline]"
      by (simp del: dropWhile_eq_Nil_conv)
    with digits_takeWhile [OF a] digits_takeWhile [OF b] digits_takeWhile [OF c] show ?thesis
      by blast
  qed
next
  assume "\<exists>a b c. digits a \<and> digits b \<and> digits c
        \<and> (s = a @ ''.'' @ b @ ''.'' @ c \<or> s = a @ ''.'' @ b @ ''.'' @ c @ [newline])"
  then obtain a b c where d: "digits a" "digits b" "digits c"
    and s: "s = a @ ''.'' @ b @ ''.'' @ c \<or> s = a @ ''.'' @ b @ ''.'' @ c @ [newline]"
    by blast
  have c0: "takeWhile (in_cset digit) c = c" "dropWhile (in_cset digit) c = []"
    using d(3) by (simp_all add: digits_def list_all_iff)
  have ne: "a \<noteq> []" "b \<noteq> []" "c \<noteq> []" using d by (simp_all add: digits_def)
  from s show "validate_version s"
  proof
    assume "s = a @ ''.'' @ b @ ''.'' @ c"
    then show ?thesis
      using ne
      by (simp add: validate_version_def re_match_def version_pattern_def rx_run_digits_dot
            digits_span [OF d(1) not_digit(1)] digits_span [OF d(2) not_digit(1)]
            rx_run_digits_eol c0 del: dropWhile_eq_Nil_conv takeWhile_eq_all_conv)
  next
    assume "s = a @ ''.'' @ b @ ''.'' @ c @ [newline]"
    then show ?thesis
      using ne
      by (simp add: validate_version_def re_match_def version_pattern_def rx_run_digits_dot
            digits_span [OF d(1) not_digit(1)] digits_span [OF d(2) not_digit(1)]
            digits_span [OF d(3) not_digit(2)] rx_run_digits_eol
            del: dropWhile_eq_Nil_conv)
  qed
qed

section \<open>Reading and updating the manifest\<close>

lemma universal_newlines_no_cr: "carriage_return \<notin> set (universal_newlines s)"
  by (induction s rule: universal_newlines.induct) (auto simp: newline_def carriage_return_def)

lemma universal_newlines_id: "carriage_return \<notin> set s \<Longrightarrow> universal_newlines s = s"
  by (induction s rule: universal_newlines.induct) auto

lemma universal_newlines_idem: "universal_newlines (universal_newlines s) = universal_newlines s"
  by (simp add: universal_newlines_id universal_newlines_no_cr)

lemma get_current_version_reads:
  "files w Manifest = Some c \<Longrightarrow> get_current_version w = (Return (reread c), w)"
  by (simp add: get_current_version_def reread_def prog_defs)

lemma update_version_quiet:
  assumes "fault e = (\<lambda>l. None)" and "files w Manifest = Some c"
  shows "update_version e new w =
     (let text = stored e (re_sub True update_pattern (version_line new) (universal_newlines c))
      in if reread text = Some new
         then (Return True,
               w\<lparr>files := (files w)(Backup \<mapsto> c, Manifest \<mapsto> text),
                 log := log w @ [Copied Manifest Backup, Opened_w Manifest, Wrote Manifest]\<rparr>)
         else (Return False,
               w\<lparr>files := (files w)(Backup \<mapsto> c, Manifest \<mapsto> c),
                 log := log w @ [Copied Manifest Backup, Opened_w Manifest, Wrote Manifest,
                                 Copied Backup Manifest]\<rparr>))"
  using assms
  by (simp add: update_version_def get_current_version_def reread_def prog_defs Let_def)

section \<open>The read-back after the update\<close>

lemma span_quote:
  "dquote \<notin> set v \<Longrightarrow> takeWhile (\<lambda>c. c \<noteq> dquote) (v @ dquote # x) = v"
  "dquote \<notin> set v \<Longrightarrow> dropWhile (\<lambda>c. c \<noteq> dquote) (v @ dquote # x) = dquote # x"
  by (induction v) auto

lemma version_key_span:
  "takeWhile (\<lambda>c. c \<noteq> dquote) (version_key @ x) = ''version = ''"
  "dropWhile (\<lambda>c. c \<noteq> dquote) (version_key @ x) = dquote # x"
  by (simp_all add: version_key_def dquote_def)

lemma version_at_line:
  assumes "prev = None \<or> prev = Some newline" and "new \<noteq> []" and "dquote \<notin> set new"
  shows "version_at prev (version_line new @ x) = Some (new, x)"
  using assms by (auto simp: version_at_def version_line_def span_quote Let_def)

lemma starts_with_key:
  "(take (length version_key) s = version_key) =
     (takeWhile (\<lambda>c. c \<noteq> dquote) s = ''version = '' \<and> dropWhile (\<lambda>c. c \<noteq> dquote) s \<noteq> [])"
proof
  assume "take (length version_key) s = version_key"
  then have "version_key @ drop (length version_key) s = s"
    by (metis append_take_drop_id)
  then obtain x where s: "s = version_key @ x" by metis
  show "takeWhile (\<lambda>c. c \<noteq> dquote) s = ''version = '' \<and> dropWhile (\<lambda>c. c \<noteq> dquote) s \<noteq> []"
    unfolding s by (simp add: version_key_span del: dropWhile_eq_Nil_conv)
next
  assume r: "takeWhile (\<lambda>c. c \<noteq> dquote) s = ''version = '' \<and> dropWhile (\<lambda>c. c \<noteq> dquote) s \<noteq> []"
  then obtain z zs where d: "dropWhile (\<lambda>c. c \<noteq> dquote) s = z # zs"
    by (cases "dropWhile (\<lambda>c. c \<noteq> dquote) s") auto
  have "takeWhile (\<lambda>c. c \<noteq> dquote) s @ dropWhile (\<lambda>c. c \<noteq> dquote) s = ''version = '' @ dquote # zs"
    using r d hd_dropWhile_dquote [OF d] by simp
  then have s: "s = ''version = '' @ dquote # zs" by simp
  show "take (length version_key) s = version_key"
    unfolding s by (simp add: version_key_def)
qed

text \<open>\<open>re.sub\<close> leaves the text up to the first double quote as it is.\<close>

lemma re_sub_keeps_first_quote:
  "takeWhile (\<lambda>c. c \<noteq> dquote) (re_sub_from True update_pattern (version_line new) prev s)
      = takeWhile (\<lambda>c. c \<noteq> dquote) s
   \<and> ((dropWhile (\<lambda>c. c \<noteq> dquote) (re_sub_from True update_pattern (version_line new) prev s) = [])
      = (dropWhile (\<lambda>c. c \<noteq> dquote) s = []))"
proof (induction s arbitrary: prev rule: length_induct)
  case (1 s)
  show ?case
  proof (cases "version_at prev s")
    case (Some vt)
    then obtain v t where at: "version_at prev s = Some (v, t)" by (cases vt) auto
    have sub: "re_sub_from True update_pattern (version_line new) prev s =
        version_line new @ re_sub_from True update_pattern (version_line new) (Some dquote) t"
      using at by (subst re_sub_from_update) simp
    note s = version_atD(1) [OF at]
    show ?thesis
      unfolding s sub [unfolded s]
      by (simp add: version_line_def version_key_span del: dropWhile_eq_Nil_conv)
  next
    case None
    show ?thesis
    proof (cases s)
      case Nil
      then show ?thesis by (simp add: rx_run_update version_at_Nil)
    next
      case (Cons x xs)
      have sub: "re_sub_from True update_pattern (version_line new) prev (x # xs) =
          x # re_sub_from True update_pattern (version_line new) (Some x) xs"
        using None Cons by (subst re_sub_from_update) simp
      have "length xs < length s" using Cons by simp
      with "1.IH" have ih:
        "takeWhile (\<lambda>c. c \<noteq> dquote) (re_sub_from True update_pattern (version_line new) (Some x) xs)
            = takeWhile (\<lambda>c. c \<noteq> dquote) xs"
        "(dropWhile (\<lambda>c. c \<noteq> dquote) (re_sub_from True update_pattern (version_line new) (Some x) xs) = [])
            = (dropWhile (\<lambda>c. c \<noteq> dquote) xs = [])"
        by blast+
      show ?thesis
        unfolding Cons sub by (simp add: ih del: dropWhile_eq_Nil_conv)
    qed
  qed
qed

lemma re_sub_from_prefix:
  "newline \<notin> set k \<Longrightarrow> version_at prev (k @ r) = None \<Longrightarrow>
     re_sub_from True update_pattern repl prev (k @ r) =
       k @ re_sub_from True update_pattern repl (if k = [] then prev else Some (last k)) r"
proof (induction k arbitrary: prev)
  case Nil
  show ?case by simp
next
  case (Cons x k)
  from Cons.prems(1) have no: "version_at (Some x) (k @ r) = None" and k: "newline \<notin> set k"
    by (auto simp: version_at_def)
  have "re_sub_from True update_pattern repl prev ((x # k) @ r) =
      x # re_sub_from True update_pattern repl (Some x) (k @ r)"
    using Cons.prems(2) by (subst re_sub_from_update) simp
  with Cons.IH [OF k no] show ?case by simp
qed

text \<open>Where the pattern does not match in the text, it does not match in the result of \<open>re.sub\<close>.\<close>

lemma version_at_after_sub:
  assumes "version_at prev s = None"
  shows "version_at prev (re_sub_from True update_pattern (version_line new) prev s) = None"
proof (cases "(prev = None \<or> prev = Some newline) \<and> take (length version_key) s = version_key")
  case False
  with re_sub_keeps_first_quote [of new prev s]
  have "\<not> ((prev = None \<or> prev = Some newline)
      \<and> take (length version_key) (re_sub_from True update_pattern (version_line new) prev s) = version_key)"
    by (simp add: starts_with_key del: dropWhile_eq_Nil_conv)
  then show ?thesis by (auto simp: version_at_def)
next
  case True
  define r where "r = drop (length version_key) s"
  from True have "version_key @ r = s"
    unfolding r_def by (metis append_take_drop_id)
  then have s: "s = version_key @ r" by simp
  from assms True have fail:
    "takeWhile (\<lambda>c. c \<noteq> dquote) r = [] \<or> dropWhile (\<lambda>c. c \<noteq> dquote) r = []"
    by (auto simp: version_at_def Let_def r_def simp del: dropWhile_eq_Nil_conv split: if_splits)
  have sub: "re_sub_from True update_pattern (version_line new) prev (version_key @ r) =
      version_key @ re_sub_from True update_pattern (version_line new) (Some dquote) r"
    using re_sub_from_prefix [of version_key prev r "version_line new"] assms s version_key_facts
    by simp
  from re_sub_keeps_first_quote [of new "Some dquote" r] fail
  have "takeWhile (\<lambda>c. c \<noteq> dquote) (re_sub_from True update_pattern (version_line new) (Some dquote) r) = []
      \<or> dropWhile (\<lambda>c. c \<noteq> dquote) (re_sub_from True update_pattern (version_line new) (Some dquote) r) = []"
    by (auto simp del: dropWhile_eq_Nil_conv)
  then show ?thesis
    unfolding s sub by (auto simp: version_at_def Let_def simp del: dropWhile_eq_Nil_conv)
qed

text \<open>
  Where get_current_version finds a version in a text, it finds the new version in
  the result of \<open>re.sub\<close>, provided the new version is not empty and has no double quote.
\<close>

lemma search_after_sub:
  assumes "new \<noteq> []" and "dquote \<notin> set new"
  shows "re_search_from True current_version_pattern prev s \<noteq> None \<Longrightarrow>
    group1 (re_search_from True current_version_pattern prev
      (re_sub_from True update_pattern (version_line new) prev s)) = Some new"
proof (induction s arbitrary: prev rule: length_induct)
  case (1 s)
  show ?case
  proof (cases "version_at prev s")
    case (Some vt)
    then obtain v t where at: "version_at prev s = Some (v, t)" by (cases vt) auto
    have sub: "re_sub_from True update_pattern (version_line new) prev s =
        version_line new @ re_sub_from True update_pattern (version_line new) (Some dquote) t"
      using at by (subst re_sub_from_update) simp
    note version_at_line [OF version_atD(4) [OF at] assms]
    then show ?thesis
      unfolding sub by (subst re_search_from_current) (simp add: group1_def)
  next
    case None
    show ?thesis
    proof (cases s)
      case Nil
      with "1.prems" show ?thesis by (simp add: rx_run_current version_at_Nil)
    next
      case (Cons x xs)
      from "1.prems" None Cons
      have found: "re_search_from True current_version_pattern (Some x) xs \<noteq> None"
        by (subst (asm) re_search_from_current) simp
      have sub: "re_sub_from True update_pattern (version_line new) prev s =
          x # re_sub_from True update_pattern (version_line new) (Some x) xs"
        using None Cons by (subst re_sub_from_update) simp
      from version_at_after_sub [OF None, of new]
      have "version_at prev (x # re_sub_from True update_pattern (version_line new) (Some x) xs) = None"
        by (simp add: sub)
      then have "re_search_from True current_version_pattern prev
            (re_sub_from True update_pattern (version_line new) prev s) =
          re_search_from True current_version_pattern (Some x)
            (re_sub_from True update_pattern (version_line new) (Some x) xs)"
        unfolding sub by (subst re_search_from_current) simp
      moreover have "length xs < length s" using Cons by simp
      with "1.IH" found
      have "group1 (re_search_from True current_version_pattern (Some x)
          (re_sub_from True update_pattern (version_line new) (Some x) xs)) = Some new"
        by blast
      ultimately show ?thesis by simp
    qed
  qed
qed

lemma set_layout_new:
  "set (layout (map (\<lambda>(g, v). (g, new)) ps) t) \<subseteq> set (layout ps t) \<union> set (version_line new)"
  by (induction ps) (auto simp: version_line_def)

lemma re_sub_no_cr:
  assumes "carriage_return \<notin> set s" and "carriage_return \<notin> set new"
  shows "carriage_return \<notin> set (re_sub True update_pattern (version_line new) s)"
proof -
  from re_sub_layout [of s new None] obtain ps t where "s = layout ps t"
    and "re_sub_from True update_pattern (version_line new) None s = layout (map (\<lambda>(g, v). (g, new)) ps) t"
    by blast
  with set_layout_new [of new ps t]
  have "set (re_sub True update_pattern (version_line new) s) \<subseteq> set s \<union> set (version_line new)"
    by (simp add: re_sub_def)
  moreover have "carriage_return \<notin> set (version_line new)"
    using assms(2) by (simp add: version_line_def version_key_def carriage_return_def dquote_def)
  ultimately show ?thesis using assms(1) by blast
qed

lemma update_verifies:
  assumes "new \<noteq> []" and "dquote \<notin> set new" and "carriage_return \<notin> set new"
    and "reread c = Some cur"
  shows "reread (re_sub True update_pattern (version_line new) (universal_newlines c)) = Some new"
proof -
  have "carriage_return \<notin> set (re_sub True update_pattern (version_line new) (universal_newlines c))"
    using universal_newlines_no_cr assms(3) by (rule re_sub_no_cr)
  then have un: "universal_newlines (re_sub True update_pattern (version_line new) (universal_newlines c)) =
      re_sub True update_pattern (version_line new) (universal_newlines c)"
    by (rule universal_newlines_id)
  from assms(4) have "re_search_from True current_version_pattern None (universal_newlines c) \<noteq> None"
    by (auto simp: reread_def re_search_def group1_def split: option.splits)
  from search_after_sub [OF assms(1,2) this] show ?thesis
    by (simp add: reread_def un [unfolded re_sub_def] re_search_def re_sub_def)
qed

lemma valid_version_chars:
  assumes "validate_version v"
  shows "v \<noteq> []" and "dquote \<notin> set v" and "carriage_return \<notin> set v" and "backslash \<notin> set v"
proof -
  from assms obtain a b c where d: "digits a" "digits b" "digits c"
    and v: "v = a @ ''.'' @ b @ ''.'' @ c \<or> v = a @ ''.'' @ b @ ''.'' @ c @ [newline]"
    unfolding validate_version_iff by blast
  from d v show "v \<noteq> []" by (auto simp: digits_def)
  have ok: "x \<noteq> dquote \<and> x \<noteq> carriage_return \<and> x \<noteq> backslash"
    if "in_cset digit x \<or> x = CHR ''.'' \<or> x = newline" for x
    using that by (auto simp: digit_def dquote_def carriage_return_def backslash_def newline_def)
  from d v have "\<forall>x \<in> set v. in_cset digit x \<or> x = CHR ''.'' \<or> x = newline"
    by (auto simp: digits_def list_all_iff)
  with ok show "dquote \<notin> set v" and "carriage_return \<notin> set v" and "backslash \<notin> set v"
    by blast+
qed

text \<open>
  So the update of main succeeds whenever nothing raises and the file system keeps
  what is written: main has validated the version and has found a current version.
\<close>

lemma update_version_succeeds:
  assumes "fault e = (\<lambda>l. None)" and "stored e = id" and "validate_version v"
    and "files w Manifest = Some c" and "reread c = Some cur"
  shows "update_version e v w =
     (Return True,
      w\<lparr>files := (files w)(Backup \<mapsto> c,
           Manifest \<mapsto> re_sub True update_pattern (version_line v) (universal_newlines c)),
        log := log w @ [Copied Manifest Backup, Opened_w Manifest, Wrote Manifest]\<rparr>)"
  using update_verifies [OF valid_version_chars(1-3) [OF assms(3)] assms(5)] assms(1,2,4)
  by (simp add: update_version_quiet Let_def)

section \<open>main up to the update\<close>

lemma main_confirmed:
  assumes "argv e = [prog, v]" and "validate_version v" and "files w Manifest = Some c"
    and "deps_ok e" and "reread c = Some cur" and "reply1 e = Line s" and "response s = ''y''"
  shows "main e w =
     try_except (deploy e v) (\<lambda>x. x = KeyboardInterrupt \<or> is_Exception x)
       (seq restore_backup (sys_exit 1)) w"
  using assms reread_nonempty [OF assms(5)]
  by (simp add: main_def get_current_version_reads bind_def os_path_exists_def input_line_def
        return_def Let_def)

lemma lower_char_y: "(lower_char c = CHR ''y'') = (c = CHR ''y'' \<or> c = CHR ''Y'')"
proof -
  define n where "n = (of_char c :: nat)"
  have c: "c = char_of n" by (simp add: n_def)
  have lt: "n < 256" by (simp add: n_def)
  have y: "char_of (121::nat) = CHR ''y''" and Y: "char_of (89::nat) = CHR ''Y''"
    by (simp_all add: char_of_eq_iff)
  have low: "lower_char c =
      char_of (if (65 \<le> n \<and> n \<le> 90) \<or> (192 \<le> n \<and> n \<le> 222 \<and> n \<noteq> 215) then n + 32 else n)"
    by (simp add: lower_char_def Let_def n_def)
  have "(lower_char c = CHR ''y'') = (n = 121 \<or> n = 89)"
    unfolding low y [symmetric] using lt by (auto split: if_splits)
  also have "\<dots> = (c = CHR ''y'' \<or> c = CHR ''Y'')"
    unfolding c y [symmetric] Y [symmetric] using lt by auto
  finally show ?thesis .
qed

section \<open>The sample runs, evaluated\<close>

lemma sample_valid: "validate_version ''1.2.4''"
  by (simp add: validate_version_def re_match_def pattern_defs)

lemma sample_reread: "reread sample_manifest = Some ''1.2.3''"
  by (simp add: sample_defs reread_def re_search_def group1_def pattern_defs)

lemma sample_updated:
  "re_sub True update_pattern (version_line ''1.2.4'') (universal_newlines sample_manifest) =
     sample_updated_manifest"
  by (simp add: sample_defs sample_updated_manifest_def re_sub_def pattern_defs)

lemma sample_updated_reread: "reread sample_updated_manifest = Some ''1.2.4''"
  by (simp add: sample_updated_manifest_def reread_def re_search_def group1_def pattern_defs)

lemma crlf_updated:
  "re_sub True update_pattern (version_line ''1.2.4'') (universal_newlines crlf_manifest) =
     crlf_updated_manifest"
  by (simp add: crlf_manifest_def crlf_updated_manifest_def re_sub_def pattern_defs)

lemma crlf_updated_reread: "reread crlf_updated_manifest = Some ''1.2.4''"
  by (simp add: crlf_updated_manifest_def reread_def re_search_def group1_def pattern_defs)

lemma operator_env_simps:
  "argv (operator_env r1 r2) = [''deploy.py'', ''1.2.4'']" "deps_ok (operator_env r1 r2)"
  "reply1 (operator_env r1 r2) = r1" "reply2 (operator_env r1 r2) = r2"
  "shell_ok (operator_env r1 r2) command" "built (operator_env r1 r2) = Some [''p.whl'']"
  "stored (operator_env r1 r2) = id" "fault (operator_env r1 r2) = (\<lambda>l. None)"
  by (simp_all add: operator_env_def)

lemma sample_world_simps:
  "files sample_world Manifest = Some sample_manifest" "files sample_world Backup = None"
  "dist sample_world = None" "log sample_world = []"
  by (simp_all add: sample_world_def)

lemma crlf_world_simps:
  "files crlf_world Manifest = Some crlf_manifest" "log crlf_world = []"
  by (simp_all add: crlf_world_def)

lemma sample_update:
  assumes "fault e = (\<lambda>l. None)" and "stored e = id"
  shows "update_version e ''1.2.4'' sample_world =
     (Return True,
      sample_world\<lparr>files := (files sample_world)(Backup \<mapsto> sample_manifest, Manifest \<mapsto> sample_updated_manifest),
        log := [Copied Manifest Backup, Opened_w Manifest, Wrote Manifest]\<rparr>)"
  by (simp add: update_version_quiet [OF assms(1) sample_world_simps(1)] assms(2) sample_updated
        sample_updated_reread sample_world_simps Let_def)

lemma crlf_update:
  assumes "fault e = (\<lambda>l. None)" and "stored e = id"
  shows "update_version e ''1.2.4'' crlf_world =
     (Return True,
      crlf_world\<lparr>files := (files crlf_world)(Backup \<mapsto> crlf_manifest, Manifest \<mapsto> crlf_updated_manifest),
        log := [Copied Manifest Backup, Opened_w Manifest, Wrote Manifest]\<rparr>)"
  by (simp add: update_version_quiet [OF assms(1) crlf_world_simps(1)] assms(2) crlf_updated
        crlf_updated_reread crlf_world_simps Let_def)

lemma response_y: "(response s = ''y'') = (py_strip s = ''y'' \<or> py_strip s = ''Y'')"
  by (auto simp: response_def py_lower_def lower_char_y map_eq_Cons_conv)

lemma py_strip_plain: "py_strip ''y'' = ''y''" "py_strip ''Y'' = ''Y''" "py_strip ''n'' = ''n''"
  by (simp_all add: py_strip_def py_isspace_def)

lemma response_samples: "response ''y'' = ''y''" "response ''Y'' = ''y''" "response ''n'' \<noteq> ''y''"
  by (simp_all add: response_y py_strip_plain)

section \<open>The claims\<close>

text \<open>
  C1. The claim: validate_version accepts exactly the strings made of three groups of
  decimal digits separated by dots, and rejects a string with a trailing newline.
  The code accepts the version \<open>1.0.5\<close> followed by a newline: \<open>$\<close> also matches just
  before a newline that ends the string.
\<close>

theorem validate_version_accepts_trailing_newline:
  "validate_version (''1.0.5'' @ [newline])"
  by (simp add: validate_version_def re_match_def pattern_defs)

text \<open>
  C2. The claim: a successful update rewrites only the first matching version line and
  leaves every other byte as it was. The code calls \<open>re.sub\<close> without a count, so every
  match is rewritten: in the sample manifest the third line, \<^verbatim>\<open>version = "0.1"\<close>,
  becomes \<^verbatim>\<open>version = "1.2.4"\<close> too. And the manifest is read and written in text
  mode, so a \<open>\r\n\<close> of the original is written back as \<open>\n\<close>.
\<close>

theorem update_version_rewrites_later_lines_too:
  "files sample_world Manifest
       = Some (version_line ''1.2.3'' @ [newline] @ ''[x]'' @ [newline] @ version_line ''0.1'' @ [newline])
   \<and> fst (update_version (operator_env (Line ''y'') (Line ''y'')) ''1.2.4'' sample_world) = Return True
   \<and> files (snd (update_version (operator_env (Line ''y'') (Line ''y'')) ''1.2.4'' sample_world)) Manifest
       = Some (version_line ''1.2.4'' @ [newline] @ ''[x]'' @ [newline] @ version_line ''1.2.4'' @ [newline])
   \<and> version_line ''1.2.4'' \<noteq> version_line ''0.1''
   \<and> files crlf_world Manifest = Some (version_line ''1.2.3'' @ [carriage_return, newline])
   \<and> fst (update_version (operator_env (Line ''y'') (Line ''y'')) ''1.2.4'' crlf_world) = Return True
   \<and> files (snd (update_version (operator_env (Line ''y'') (Line ''y'')) ''1.2.4'' crlf_world)) Manifest
       = Some (version_line ''1.2.4'' @ [newline])"
proof -
  note a = sample_update [OF operator_env_simps(8) operator_env_simps(7), of "Line ''y''" "Line ''y''"]
  note b = crlf_update [OF operator_env_simps(8) operator_env_simps(7), of "Line ''y''" "Line ''y''"]
  have c: "version_line ''1.2.4'' \<noteq> version_line ''0.1''"
    by (simp add: version_line_def)
  show ?thesis
    using c
    by (simp add: a b sample_world_simps crlf_world_simps sample_manifest_def
          sample_updated_manifest_def crlf_manifest_def crlf_updated_manifest_def)
qed

text \<open>
  C2, amended. When no statement raises and the file system keeps what is written, a
  successful update_version (of a version without a backslash) has rewritten every
  match of the pattern and nothing else: the text read from the manifest is a layout
  of at least one piece, each piece ending in a version line, and the manifest
  afterwards is the same layout with the new version in every piece. It is what
  \<open>re.sub\<close> returns on the text read, and reading it again gives the new version.
\<close>

theorem update_version_rewrites_every_match:
  assumes "fault e = (\<lambda>l. None)" and "stored e = id" and "backslash \<notin> set new"
    and "files w Manifest = Some c" and "update_version e new w = (Return True, w')"
  shows "\<exists>ps t. ps \<noteq> [] \<and> (\<forall>(g, v) \<in> set ps. v \<noteq> [] \<and> dquote \<notin> set v)
      \<and> universal_newlines c = layout ps t
      \<and> files w' Manifest = Some (layout (map (\<lambda>(g, v). (g, new)) ps) t)
      \<and> files w' Manifest = Some (re_sub True update_pattern (version_line new) (universal_newlines c))
      \<and> fst (get_current_version w') = Return (Some new)"
proof -
  let ?text = "universal_newlines c"
  let ?out = "re_sub True update_pattern (version_line new) ?text"
  from assms(1,2,4,5) have verified: "reread ?out = Some new" and w': "files w' Manifest = Some ?out"
    by (auto simp: update_version_quiet Let_def split: if_splits)
  from re_sub_layout [of ?text new None] obtain ps t where lay: "?text = layout ps t"
    and out: "re_sub_from True update_pattern (version_line new) None ?text = layout (map (\<lambda>(g, v). (g, new)) ps) t"
    and vs: "\<forall>(g, v) \<in> set ps. v \<noteq> [] \<and> dquote \<notin> set v"
    and none: "ps = [] \<longrightarrow> re_search_from True current_version_pattern None ?text = None"
    by blast
  have "ps \<noteq> []"
  proof
    assume "ps = []"
    with lay out none have "?out = ?text"
      and "re_search True current_version_pattern ?text = None"
      by (simp_all add: re_sub_def re_search_def)
    then have "reread ?out = None"
      by (simp add: reread_def universal_newlines_idem group1_def)
    with verified show False by simp
  qed
  moreover have "files w' Manifest = Some (layout (map (\<lambda>(g, v). (g, new)) ps) t)"
    using w' out by (simp add: re_sub_def)
  moreover have "fst (get_current_version w') = Return (Some new)"
    using w' verified by (simp add: get_current_version_reads)
  ultimately show ?thesis
    using vs lay w' by (intro exI [of _ ps] exI [of _ t]) simp
qed

theorem update_version_rewrites_every_match_witness:
  "\<exists>ps t. ps \<noteq> [] \<and> (\<forall>(g, v) \<in> set ps. v \<noteq> [] \<and> dquote \<notin> set v)
      \<and> universal_newlines sample_manifest = layout ps t
      \<and> files (snd (update_version (operator_env (Line ''y'') (Line ''y'')) ''1.2.4'' sample_world)) Manifest
          = Some (layout (map (\<lambda>(g, v). (g, ''1.2.4'')) ps) t)
      \<and> files (snd (update_version (operator_env (Line ''y'') (Line ''y'')) ''1.2.4'' sample_world)) Manifest
          = Some (re_sub True update_pattern (version_line ''1.2.4'') (universal_newlines sample_manifest))
      \<and> fst (get_current_version (snd (update_version (operator_env (Line ''y'') (Line ''y'')) ''1.2.4'' sample_world)))
          = Return (Some ''1.2.4'')"
proof -
  have h3: "backslash \<notin> set ''1.2.4''" by (simp add: backslash_def)
  have "fst (update_version (operator_env (Line ''y'') (Line ''y'')) ''1.2.4'' sample_world) = Return True"
    by (simp add: sample_update [OF operator_env_simps(8) operator_env_simps(7)])
  then have h5: "update_version (operator_env (Line ''y'') (Line ''y'')) ''1.2.4'' sample_world =
      (Return True, snd (update_version (operator_env (Line ''y'') (Line ''y'')) ''1.2.4'' sample_world))"
    by (simp add: prod_eq_iff)
  show ?thesis
    by (rule update_version_rewrites_every_match
          [OF operator_env_simps(8) operator_env_simps(7) h3 sample_world_simps(1) h5])
qed

text \<open>
  C3. When no statement raises and the version read back at line 87 is not the
  requested one, update_version returns False and the manifest has the content it had
  before the call, whatever the file system kept of the text written.
\<close>

theorem failed_verification_restores_manifest:
  assumes "fault e = (\<lambda>l. None)" and "backslash \<notin> set new" and "files w Manifest = Some c"
    and "reread (stored e (re_sub True update_pattern (version_line new) (universal_newlines c))) \<noteq> Some new"
  shows "fst (update_version e new w) = Return False
    \<and> files (snd (update_version e new w)) Manifest = Some c"
  using assms by (simp add: update_version_quiet Let_def)

theorem failed_verification_restores_manifest_witness:
  "reread (stored lost_write_env (re_sub True update_pattern (version_line ''1.2.4'') (universal_newlines sample_manifest))) \<noteq> Some ''1.2.4''
   \<and> fst (update_version lost_write_env ''1.2.4'' sample_world) = Return False
   \<and> files (snd (update_version lost_write_env ''1.2.4'' sample_world)) Manifest = Some sample_manifest"
proof -
  have h1: "fault lost_write_env = (\<lambda>l. None)" by (simp add: sample_defs)
  have h2: "backslash \<notin> set ''1.2.4''" by (simp add: backslash_def)
  have h3: "files sample_world Manifest = Some sample_manifest" by (simp add: sample_defs)
  have h4: "reread (stored lost_write_env (re_sub True update_pattern (version_line ''1.2.4'') (universal_newlines sample_manifest))) \<noteq> Some ''1.2.4''"
    by (simp add: sample_defs reread_def re_search_def group1_def pattern_defs)
  from failed_verification_restores_manifest [OF h1 h2 h3 h4] h4 show ?thesis by simp
qed

text \<open>
  C4. The claim: every failure after the mutation of the manifest has begun attempts a
  restoration before the process exits. When \<open>f.write\<close> at line 84 raises (the disk is
  full), line 83 has already truncated the manifest; update_version catches the
  exception at line 94 and returns False without restoring, and main exits with code 1
  at line 164 without calling restore_backup. The run ends with an empty manifest, the
  backup still there, and no copy from the backup in its log.
\<close>

theorem write_failure_exits_without_restoring:
  "fst (run_script full_disk_env sample_world) = Exited 1
   \<and> files (snd (run_script full_disk_env sample_world)) Manifest = Some []
   \<and> files (snd (run_script full_disk_env sample_world)) Backup = Some sample_manifest
   \<and> log (snd (run_script full_disk_env sample_world)) = [Copied Manifest Backup, Opened_w Manifest]"
proof -
  have e: "argv full_disk_env = [''deploy.py'', ''1.2.4'']" "deps_ok full_disk_env"
    "reply1 full_disk_env = Line ''y''" "fault full_disk_env = (\<lambda>l. if l = 84 then Some OSError else None)"
    by (simp_all add: full_disk_env_def operator_env_def)
  have m: "main full_disk_env sample_world =
      try_except (deploy full_disk_env ''1.2.4'') (\<lambda>x. x = KeyboardInterrupt \<or> is_Exception x)
        (seq restore_backup (sys_exit 1)) sample_world"
    by (rule main_confirmed [where s = "''y''" and c = sample_manifest and cur = "''1.2.3''" and prog = "''deploy.py''"])
       (simp_all add: e sample_world_simps sample_valid sample_reread response_samples)
  show ?thesis
    by (simp add: run_script_def m deploy_def update_version_def prog_defs e sample_world_simps)
qed

text \<open>
  C5. The claim: each prompt takes only the exact lower-case string \<open>y\<close> as a yes.
  The code strips the reply and lowers its case before it compares, so \<open>Y\<close> is a yes
  too: with the reply \<open>Y\<close> at the first prompt the run goes on and changes the manifest.
\<close>

theorem uppercase_reply_is_affirmative:
  "response ''Y'' = ''y'' \<and> ''Y'' \<noteq> ''y''
   \<and> fst (run_script (operator_env (Line ''Y'') (Line ''n'')) sample_world) = Exited 0
   \<and> files (snd (run_script (operator_env (Line ''Y'') (Line ''n'')) sample_world)) Manifest
       \<noteq> files sample_world Manifest"
proof -
  have m: "main (operator_env (Line ''Y'') (Line ''n'')) sample_world =
      try_except (deploy (operator_env (Line ''Y'') (Line ''n'')) ''1.2.4'')
        (\<lambda>x. x = KeyboardInterrupt \<or> is_Exception x)
        (seq restore_backup (sys_exit 1)) sample_world"
    by (rule main_confirmed [where s = "''Y''" and c = sample_manifest and cur = "''1.2.3''" and prog = "''deploy.py''"])
       (simp_all add: operator_env_simps sample_world_simps sample_valid sample_reread response_samples)
  note u = sample_update [OF operator_env_simps(8) operator_env_simps(7), of "Line ''Y''" "Line ''n''"]
  have d: "sample_manifest \<noteq> sample_updated_manifest"
    by (simp add: sample_manifest_def sample_updated_manifest_def version_line_def)
  show ?thesis
    using d
    by (simp add: run_script_def m deploy_def u prog_defs run_command_def shell_effect_def
          operator_env_simps sample_world_simps response_samples
          clean_command_def build_command_def upload_command_def)
qed

text \<open>
  C5, amended. At each of the two prompts a reply is a yes exactly when, stripped of
  the white space around it and in lower case, it is \<open>y\<close>: that is when the stripped
  reply is \<open>y\<close> or \<open>Y\<close>. At the first prompt, every other line ends the run with exit
  code 0 and the world as it was. At the second prompt (reached when nothing raises,
  the file system keeps what is written, and the clean-up and the build succeed and
  leave a file), the upload is run exactly when the reply is a yes.
\<close>

theorem prompts_strip_and_lower:
  assumes "argv e = [prog, v]" and "validate_version v" and "files w Manifest = Some c"
    and "deps_ok e" and "reread c = Some cur" and "reply1 e = Line s1"
  shows "(response s = ''y'') = (py_strip s = ''y'' \<or> py_strip s = ''Y'')
    \<and> (response s1 \<noteq> ''y'' \<longrightarrow> run_script e w = (Exited 0, w))
    \<and> (response s1 = ''y'' \<and> fault e = (\<lambda>l. None) \<and> stored e = id
         \<and> shell_ok e clean_command \<and> shell_ok e build_command \<and> built e = Some (f # fs)
         \<and> reply2 e = Line s2 \<and> log w = []
       \<longrightarrow> (Ran upload_command \<in> set (log (snd (run_script e w)))) = (response s2 = ''y''))"
proof (intro conjI impI)
  show "(response s = ''y'') = (py_strip s = ''y'' \<or> py_strip s = ''Y'')"
    by (rule response_y)
next
  assume "response s1 \<noteq> ''y''"
  with assms reread_nonempty [OF assms(5)] show "run_script e w = (Exited 0, w)"
    by (simp add: run_script_def main_def get_current_version_reads bind_def
          os_path_exists_def input_line_def return_def raise_def sys_exit_def Let_def)
next
  assume h: "response s1 = ''y'' \<and> fault e = (\<lambda>l. None) \<and> stored e = id
         \<and> shell_ok e clean_command \<and> shell_ok e build_command \<and> built e = Some (f # fs)
         \<and> reply2 e = Line s2 \<and> log w = []"
  then have yes: "response s1 = ''y''" and quiet: "fault e = (\<lambda>l. None)" and sound: "stored e = id"
    and rest: "shell_ok e clean_command" "shell_ok e build_command" "built e = Some (f # fs)"
      "reply2 e = Line s2" "log w = []"
    by simp_all
  note u = update_version_succeeds [OF quiet sound assms(2,3,5)]
  note m = main_confirmed [OF assms yes]
  show "(Ran upload_command \<in> set (log (snd (run_script e w)))) = (response s2 = ''y'')"
    using quiet rest
    by (cases "shell_ok e upload_command")
       (simp_all add: run_script_def m deploy_def u prog_defs run_command_def shell_effect_def
          restore_backup_def clean_command_def build_command_def upload_command_def)
qed

theorem prompts_strip_and_lower_witness:
  "(response ''n'' \<noteq> ''y''
     \<and> run_script (operator_env (Line ''n'') (Line ''y'')) sample_world = (Exited 0, sample_world))
   \<and> (response ''Y'' = ''y''
     \<and> Ran upload_command \<in> set (log (snd (run_script (operator_env (Line ''Y'') (Line ''Y'')) sample_world))))"
proof -
  note a = prompts_strip_and_lower
      [where e = "operator_env (Line ''n'') (Line ''y'')" and ?s1.0 = "''n''" and s = "''n''"
         and f = "''p.whl''" and fs = "[]" and ?s2.0 = "''y''",
       OF operator_env_simps(1) sample_valid sample_world_simps(1)
         operator_env_simps(2) sample_reread operator_env_simps(3)]
  note b = prompts_strip_and_lower
      [where e = "operator_env (Line ''Y'') (Line ''Y'')" and ?s1.0 = "''Y''" and s = "''Y''"
         and f = "''p.whl''" and fs = "[]" and ?s2.0 = "''Y''",
       OF operator_env_simps(1) sample_valid sample_world_simps(1)
         operator_env_simps(2) sample_reread operator_env_simps(3)]
  from a have "run_script (operator_env (Line ''n'') (Line ''y'')) sample_world = (Exited 0, sample_world)"
    by (simp add: response_samples)
  moreover from b
  have "Ran upload_command \<in> set (log (snd (run_script (operator_env (Line ''Y'') (Line ''Y'')) sample_world)))"
    by (simp add: response_samples operator_env_simps sample_world_simps)
  ultimately show ?thesis by (simp add: response_samples)
qed

text \<open>
  C6. When the operator declines the upload, the run removes the backup, leaves the
  manifest at the new version and dist/ as the build left it, and exits with code 0;
  it has run the clean-up and the build, and no upload.
\<close>

theorem declined_upload_keeps_new_version:
  assumes "fault e = (\<lambda>l. None)" and "stored e = id" and "argv e = [prog, v]"
    and "validate_version v" and "files w Manifest = Some c" and "deps_ok e"
    and "reread c = Some cur" and "reply1 e = Line s1" and "response s1 = ''y''"
    and "shell_ok e clean_command" and "shell_ok e build_command" and "built e = Some (f # fs)"
    and "reply2 e = Line s2" and "response s2 \<noteq> ''y''" and "log w = []"
  shows "fst (run_script e w) = Exited 0
    \<and> files (snd (run_script e w)) Backup = None
    \<and> files (snd (run_script e w)) Manifest =
        Some (re_sub True update_pattern (version_line v) (universal_newlines c))
    \<and> fst (get_current_version (snd (run_script e w))) = Return (Some v)
    \<and> dist (snd (run_script e w)) = built e
    \<and> log (snd (run_script e w)) =
        [Copied Manifest Backup, Opened_w Manifest, Wrote Manifest, Ran clean_command,
         Ran build_command, Removed Backup]"
proof -
  note verified = update_verifies [OF valid_version_chars(1-3) [OF assms(4)] assms(7)]
  note u = update_version_succeeds [OF assms(1,2,4,5,7)]
  note m = main_confirmed [OF assms(3-9)]
  show ?thesis
    using assms(1,10-15) verified
    by (simp add: run_script_def m deploy_def u prog_defs run_command_def shell_effect_def
          get_current_version_reads clean_command_def build_command_def upload_command_def)
qed

theorem declined_upload_keeps_new_version_witness:
  "fst (run_script (operator_env (Line ''y'') (Line ''n'')) sample_world) = Exited 0
    \<and> files (snd (run_script (operator_env (Line ''y'') (Line ''n'')) sample_world)) Backup = None
    \<and> fst (get_current_version (snd (run_script (operator_env (Line ''y'') (Line ''n'')) sample_world)))
        = Return (Some ''1.2.4'')
    \<and> dist (snd (run_script (operator_env (Line ''y'') (Line ''n'')) sample_world))
        = built (operator_env (Line ''y'') (Line ''n''))"
proof -
  from declined_upload_keeps_new_version
    [OF operator_env_simps(8) operator_env_simps(7) operator_env_simps(1) sample_valid
      sample_world_simps(1) operator_env_simps(2) sample_reread operator_env_simps(3)
      response_samples(1) operator_env_simps(5) operator_env_simps(5) operator_env_simps(6)
      operator_env_simps(4) response_samples(3) sample_world_simps(4)]
  show ?thesis by blast
qed

text \<open>
  C7. When the build succeeds and dist/ is missing or empty afterwards, the run
  restores the manifest from the backup, removes the backup and exits with code 1;
  it has not run the upload.
\<close>

theorem empty_build_output_rolls_back:
  assumes "fault e = (\<lambda>l. None)" and "stored e = id" and "argv e = [prog, v]"
    and "validate_version v" and "files w Manifest = Some c" and "deps_ok e"
    and "reread c = Some cur" and "reply1 e = Line s1" and "response s1 = ''y''"
    and "shell_ok e clean_command" and "shell_ok e build_command"
    and "built e = None \<or> built e = Some []" and "log w = []"
  shows "fst (run_script e w) = Exited 1
    \<and> files (snd (run_script e w)) Manifest = Some c
    \<and> files (snd (run_script e w)) Backup = None
    \<and> Ran upload_command \<notin> set (log (snd (run_script e w)))
    \<and> log (snd (run_script e w)) =
        [Copied Manifest Backup, Opened_w Manifest, Wrote Manifest, Ran clean_command,
         Ran build_command, Copied Backup Manifest, Removed Backup]"
proof -
  note u = update_version_succeeds [OF assms(1,2,4,5,7)]
  note m = main_confirmed [OF assms(3-9)]
  from assms(12) show ?thesis
  proof
    assume "built e = None"
    with assms(1,10,11,13) show ?thesis
      by (simp add: run_script_def m deploy_def u prog_defs run_command_def shell_effect_def
            restore_backup_def clean_command_def build_command_def upload_command_def)
  next
    assume "built e = Some []"
    with assms(1,10,11,13) show ?thesis
      by (simp add: run_script_def m deploy_def u prog_defs run_command_def shell_effect_def
            restore_backup_def clean_command_def build_command_def upload_command_def)
  qed
qed

theorem empty_build_output_rolls_back_witness:
  "fst (run_script empty_build_env sample_world) = Exited 1
    \<and> files (snd (run_script empty_build_env sample_world)) Manifest = Some sample_manifest
    \<and> files (snd (run_script empty_build_env sample_world)) Backup = None
    \<and> Ran upload_command \<notin> set (log (snd (run_script empty_build_env sample_world)))"
proof -
  have e: "empty_build_env = (operator_env (Line ''y'') (Line ''y''))\<lparr>built := Some []\<rparr>"
    by (simp add: empty_build_env_def)
  have h1: "fault empty_build_env = (\<lambda>l. None)" and st: "stored empty_build_env = id"
    and h2: "argv empty_build_env = [''deploy.py'', ''1.2.4'']"
    and h5: "deps_ok empty_build_env" and h7: "reply1 empty_build_env = Line ''y''"
    and h10: "shell_ok empty_build_env clean_command" and h11: "shell_ok empty_build_env build_command"
    and h12: "built empty_build_env = None \<or> built empty_build_env = Some []"
    by (simp_all add: e operator_env_simps)
  from empty_build_output_rolls_back
    [OF h1 st h2 sample_valid sample_world_simps(1) h5 sample_reread h7 response_samples(1)
      h10 h11 h12 sample_world_simps(4)]
  show ?thesis by blast
qed

text \<open>
  C8. run_tests.py exits with code 0 when pytest is available and its subprocess returns
  0, and with code 1 in every other case.
\<close>

theorem run_tests_exit_code:
  "(run_tests_main pytest_available returncode = 0) = (pytest_available \<and> returncode = 0)
   \<and> (run_tests_main pytest_available returncode = 1) = (\<not> (pytest_available \<and> returncode = 0))"
  by (simp add: run_tests_main_def)

theorem run_tests_exit_code_witness:
  "run_tests_main True 0 = 0 \<and> run_tests_main True 2 = 1 \<and> run_tests_main False 0 = 1"
  using run_tests_exit_code [of True 0] run_tests_exit_code [of True 2]
    run_tests_exit_code [of False 0]
  by simp

text \<open>
  C9. When the read-back at line 87 fails, update_version copies the backup over the
  manifest and leaves the backup where it is, and main exits with code 1 without
  touching it: the run ends with the backup on disk, holding the original content.
  restore_backup, run in that world, would have removed it.
\<close>

theorem failed_verification_leaves_backup:
  assumes "fault e = (\<lambda>l. None)" and "argv e = [prog, v]" and "validate_version v"
    and "files w Manifest = Some c" and "deps_ok e" and "reread c = Some cur"
    and "reply1 e = Line s1" and "response s1 = ''y''"
    and "fst (update_version e v w) = Return False"
  shows "fst (run_script e w) = Exited 1
    \<and> snd (run_script e w) = snd (update_version e v w)
    \<and> files (snd (run_script e w)) Backup = Some c
    \<and> files (snd (run_script e w)) Manifest = Some c
    \<and> files (snd (restore_backup (snd (run_script e w)))) Backup = None"
proof -
  let ?text = "stored e (re_sub True update_pattern (version_line v) (universal_newlines c))"
  from assms(1,4,9) have failed: "reread ?text \<noteq> Some v"
    by (simp add: update_version_quiet Let_def split: if_splits)
  then have u: "update_version e v w =
      (Return False,
       w\<lparr>files := (files w)(Backup \<mapsto> c, Manifest \<mapsto> c),
         log := log w @ [Copied Manifest Backup, Opened_w Manifest, Wrote Manifest,
                         Copied Backup Manifest]\<rparr>)"
    using assms(1,4) by (simp add: update_version_quiet Let_def)
  note m = main_confirmed [OF assms(2-8)]
  show ?thesis
    by (simp add: run_script_def m deploy_def u prog_defs restore_backup_def)
qed

theorem failed_verification_leaves_backup_witness:
  "fst (run_script lost_write_env sample_world) = Exited 1
    \<and> files (snd (run_script lost_write_env sample_world)) Backup = Some sample_manifest
    \<and> files (snd (run_script lost_write_env sample_world)) Manifest = Some sample_manifest
    \<and> files (snd (restore_backup (snd (run_script lost_write_env sample_world)))) Backup = None"
proof -
  have e: "lost_write_env = (operator_env (Line ''y'') (Line ''y''))\<lparr>stored := (\<lambda>text. [])\<rparr>"
    by (simp add: lost_write_env_def)
  have h1: "fault lost_write_env = (\<lambda>l. None)" and h2: "argv lost_write_env = [''deploy.py'', ''1.2.4'']"
    and h5: "deps_ok lost_write_env" and h7: "reply1 lost_write_env = Line ''y''"
    and st: "stored lost_write_env = (\<lambda>text. [])"
    by (simp_all add: e operator_env_simps)
  have h9: "fst (update_version lost_write_env ''1.2.4'' sample_world) = Return False"
    by (simp add: update_version_quiet [OF h1 sample_world_simps(1)] st reread_def re_search_def
          group1_def pattern_defs Let_def)
  from failed_verification_leaves_backup
    [OF h1 h2 sample_valid sample_world_simps(1) h5 sample_reread h7 response_samples(1) h9]
  show ?thesis by blast
qed

text \<open>
  C10. An interrupt at the first prompt is not caught: the script ends by the uncaught
  KeyboardInterrupt, not by \<open>sys.exit(1)\<close>, and has changed nothing.
\<close>

theorem interrupt_at_first_prompt_is_uncaught:
  assumes "argv e = [prog, v]" and "validate_version v" and "files w Manifest = Some c"
    and "deps_ok e" and "reread c = Some cur" and "reply1 e = Interrupt"
  shows "run_script e w = (Uncaught KeyboardInterrupt, w)"
  using assms reread_nonempty [OF assms(5)]
  by (simp add: run_script_def main_def get_current_version_reads bind_def os_path_exists_def
        input_line_def return_def raise_def Let_def)

theorem interrupt_at_first_prompt_is_uncaught_witness:
  "run_script (operator_env Interrupt (Line ''y'')) sample_world = (Uncaught KeyboardInterrupt, sample_world)"
proof -
  have h1: "argv (operator_env Interrupt (Line ''y'')) = [''deploy.py'', ''1.2.4'']"
    by (simp add: sample_defs)
  have h2: "validate_version ''1.2.4''"
    by (simp add: validate_version_def re_match_def pattern_defs)
  have h3: "files sample_world Manifest = Some sample_manifest" by (simp add: sample_defs)
  have h4: "deps_ok (operator_env Interrupt (Line ''y''))" by (simp add: sample_defs)
  have h5: "reread sample_manifest = Some ''1.2.3''"
    by (simp add: sample_defs reread_def re_search_def group1_def pattern_defs)
  have h6: "reply1 (operator_env Interrupt (Line ''y'')) = Interrupt" by (simp add: sample_defs)
  show ?thesis by (rule interrupt_at_first_prompt_is_uncaught [OF h1 h2 h3 h4 h5 h6])
qed

end
